theory Spec2Isabelle
  imports Main "HOL-Library.Finite_Map" "HOL-Library.Sublist"
begin

section \<open>JavaScript values used by the mount middleware\<close>

text \<open>
  Strings are lists of code units below 256, the range of \<open>char\<close>: paths, host names,
  methods and identifiers in Latin-1. A property that may be absent (\<open>undefined\<close>) is a
  \<open>string option\<close>; \<open>None\<close> is \<open>undefined\<close>. The helpers below are the JavaScript
  operators the two source files apply to such values.
\<close>

definition truthy :: "string option \<Rightarrow> bool" where
  \<comment> \<open>ToBoolean: \<open>undefined\<close> and the empty string are falsy.\<close>
  "truthy v = (case v of None \<Rightarrow> False | Some s \<Rightarrow> s \<noteq> [])"

definition or_else :: "string option \<Rightarrow> string \<Rightarrow> string" where
  \<comment> \<open>\<open>v || d\<close> with a string default.\<close>
  "or_else v d = (case v of None \<Rightarrow> d | Some s \<Rightarrow> (if s = [] then d else s))"

definition js_string :: "string option \<Rightarrow> string" where
  \<comment> \<open>ToString of an operand of string concatenation.\<close>
  "js_string v = (case v of None \<Rightarrow> ''undefined'' | Some s \<Rightarrow> s)"

definition endsWith :: "string \<Rightarrow> string \<Rightarrow> bool" where
  \<comment> \<open>\<open>strings.endsWith(string, substring)\<close> of ringo/utils/strings.\<close>
  "endsWith s t = (length t \<le> length s \<and> drop (length s - length t) s = t)"

definition startsWith :: "string \<Rightarrow> string \<Rightarrow> bool" where
  \<comment> \<open>\<open>strings.startsWith(string, substring)\<close> of ringo/utils/strings.\<close>
  "startsWith s t = (take (length t) s = t)"

definition slice_from :: "nat \<Rightarrow> string \<Rightarrow> string" where
  \<comment> \<open>\<open>s.slice(n)\<close> for \<open>n \<ge> 0\<close>: past the end it yields the empty string.\<close>
  "slice_from n s = drop n s"

definition slice_0_minus1 :: "string \<Rightarrow> string" where
  \<comment> \<open>\<open>s.slice(0, -1)\<close>: all but the last code unit.\<close>
  "slice_0_minus1 s = butlast s"

fun insert_sorted :: "('a \<Rightarrow> 'a \<Rightarrow> int) \<Rightarrow> 'a \<Rightarrow> 'a list \<Rightarrow> 'a list" where
  "insert_sorted cmp x [] = [x]"
| "insert_sorted cmp x (y # ys) =
     (if cmp y x \<le> 0 then y # insert_sorted cmp x ys else x # y # ys)"

definition array_sort :: "('a \<Rightarrow> 'a \<Rightarrow> int) \<Rightarrow> 'a list \<Rightarrow> 'a list" where
  \<comment> \<open>\<open>Array.prototype.sort(cmp)\<close> as ECMAScript 2019 specifies it: a stable sort.
      Each element is placed behind every earlier element that the comparator does
      not order after it.\<close>
  "array_sort cmp xs = foldl (\<lambda>acc x. insert_sorted cmp x acc) [] xs"

section \<open>Errors, requests, responses\<close>

datatype js_error =
    MissingSpec         \<comment> \<open>\<open>new Error("Missing spec")\<close>\<close>
  | TargetResolution    \<comment> \<open>\<open>new Error("Error resolving target: ...")\<close>\<close>
  | TypeError           \<comment> \<open>a method called on \<open>undefined\<close>\<close>
  | URIError            \<comment> \<open>\<open>encodeURI\<close> on a lone surrogate\<close>

type_synonym addr = nat

record request =
  scriptName :: string
  pathInfo :: "string option"
  headers :: "(string \<times> string) list"
  req_method :: string   \<comment> \<open>\<open>req.method\<close>\<close>
  queryString :: "string option"
  lookupModule :: "(string \<Rightarrow> string) option"   \<comment> \<open>\<open>req.env.lookupModule\<close>\<close>

record response =
  status :: nat
  rheaders :: "(string \<times> string) list"
  body :: "string list"

definition headers_get :: "(string \<times> string) list \<Rightarrow> string \<Rightarrow> string option" where
  \<comment> \<open>\<open>Headers(req.headers).get(name)\<close> of ringo/utils/http, on header names as that
      collaborator normalises them.\<close>
  "headers_get hs name = map_of hs name"

section \<open>Registration: \<open>app.mount\<close> of lib/middleware/mount.js\<close>

text \<open>The \<open>spec\<close> argument as the caller passes it: a string, an object whose \<open>path\<close> and
  \<open>host\<close> properties may be absent, or a falsy value that is not a string. An object is
  taken to be passed to one call only and to carry no other property, so that what a
  \<open>match\<close> closure reads from it is what its own call of \<open>app.mount\<close> has written.\<close>

datatype spec_arg =
    SpecString string
  | SpecObject "string option" "string option"
  | SpecFalsy

text \<open>The \<open>spec\<close> object once lines 48--63 have run; the \<open>match\<close> closure captures it, and
  the mount object's \<open>path\<close> and \<open>canonicalPath\<close> are copies of its properties.\<close>

record spec =
  path :: "string option"
  canonicalPath :: "string option"
  host :: "string option"

definition normalize_spec :: "spec_arg \<Rightarrow> js_error + spec" where
  "normalize_spec a =
     (case (case a of
              SpecString s \<Rightarrow> Inr (Some s, None)
            | SpecObject p h \<Rightarrow> Inr (p, h)
            | SpecFalsy \<Rightarrow> Inl MissingSpec) of
        Inl e \<Rightarrow> Inl e
      | Inr (p, h) \<Rightarrow>
          Inr \<lparr> path = (if truthy p \<and> endsWith (the p) ''/''
                        then Some (slice_0_minus1 (the p)) else p),
                canonicalPath = (if truthy p
                        then (if endsWith (the p) ''/'' then p else Some (the p @ ''/''))
                        else None),
                host = (if truthy h then h else None) \<rparr>)"

datatype target = App addr | ModuleId string

definition resolveApp :: "(string \<Rightarrow> addr option) \<Rightarrow> target \<Rightarrow> js_error + addr" where
  \<comment> \<open>Modelled from the spec: \<open>resolveApp\<close> of the helpers module, which is not among the
      sources. A handler value is the target itself; a symbolic identifier is resolved
      by the module system \<open>require\<close>, and a failed resolution is an error.\<close>
  "resolveApp require t =
     (case t of
        App a \<Rightarrow> Inr a
      | ModuleId i \<Rightarrow> (case require i of None \<Rightarrow> Inl TargetResolution | Some a \<Rightarrow> Inr a))"

record link =
  parent :: "addr option"
  link_path :: "string option"
  link_host :: "string option"

record mount_point =
  mspec :: spec
  redirect :: bool
  app :: addr

text \<open>The state \<open>app.mount\<close> works on: the \<open>mounts\<close> array of the middleware instance and
  the \<open>mountInfo\<close> property of every application object (absent from the map where the
  object has none).\<close>

record mount_state =
  mounts :: "mount_point list"
  mountInfo :: "(addr, link list) fmap"

definition slashes :: "string option \<Rightarrow> nat" where
  \<comment> \<open>\<open>(p || '').match(/\//g)\<close>, with \<open>null\<close> counted as 0.\<close>
  "slashes p = length (filter (\<lambda>c. c = CHR ''/'') (or_else p []))"

definition mostSpecificPathFirst :: "mount_point \<Rightarrow> mount_point \<Rightarrow> int" where
  "mostSpecificPathFirst m1 m2 =
     (let slash1 = slashes (path (mspec m1));
          slash2 = slashes (path (mspec m2))
      in int slash2 - int slash1)"

definition app_mount ::
  "(string \<Rightarrow> addr option) \<Rightarrow> addr \<Rightarrow> spec_arg \<Rightarrow> target \<Rightarrow> bool \<Rightarrow> mount_state
     \<Rightarrow> (js_error + unit) \<times> mount_state" where
  "app_mount require this a tgt noRedirect st =
     (case normalize_spec a of
        Inl e \<Rightarrow> (Inl e, st)
      | Inr sp \<Rightarrow>
          (case resolveApp require tgt of
             Inl e \<Rightarrow> (Inl e, st)
           | Inr resolved \<Rightarrow>
               (let info = (case fmlookup (mountInfo st) resolved of
                              None \<Rightarrow> [] | Some ls \<Rightarrow> ls);
                    info' = info @ [\<lparr> parent = Some this, link_path = path sp,
                                      link_host = host sp \<rparr>];
                    pushed = mounts st @ [\<lparr> mspec = sp, redirect = (\<not> noRedirect),
                                            app = resolved \<rparr>]
                in (Inr (),
                    \<lparr> mounts = array_sort mostSpecificPathFirst pushed,
                      mountInfo = fmupd resolved info' (mountInfo st) \<rparr>))))"

text \<open>A sequence of \<open>app.mount\<close> calls on one middleware instance. A call that throws
  leaves the state as it is and the next call proceeds. \<open>registered_mount\<close> is the mount
  object a call pushes when it gets that far, and \<open>registration_order\<close> lists these
  objects in the order of the calls.\<close>

definition registered_mount ::
  "(string \<Rightarrow> addr option) \<Rightarrow> spec_arg \<times> target \<times> bool \<Rightarrow> mount_point option" where
  "registered_mount require c =
     (case c of (a, tgt, noRedirect) \<Rightarrow>
        (case normalize_spec a of
           Inl e \<Rightarrow> None
         | Inr sp \<Rightarrow>
             (case resolveApp require tgt of
                Inl e \<Rightarrow> None
              | Inr resolved \<Rightarrow>
                  Some \<lparr> mspec = sp, redirect = (\<not> noRedirect), app = resolved \<rparr>)))"

definition registration_order ::
  "(string \<Rightarrow> addr option) \<Rightarrow> (spec_arg \<times> target \<times> bool) list \<Rightarrow> mount_point list" where
  "registration_order require cs = List.map_filter (registered_mount require) cs"

fun mount_all ::
  "(string \<Rightarrow> addr option) \<Rightarrow> addr \<Rightarrow> (spec_arg \<times> target \<times> bool) list \<Rightarrow> mount_state
     \<Rightarrow> mount_state" where
  "mount_all require this [] st = st"
| "mount_all require this ((a, tgt, noRedirect) # cs) st =
     mount_all require this cs (snd (app_mount require this a tgt noRedirect st))"

definition specificity :: "mount_point \<Rightarrow> nat" where
  "specificity m = slashes (path (mspec m))"

section \<open>Dispatch: the middleware function \<open>mount(req)\<close> of lib/middleware/mount.js\<close>

definition host_test :: "spec \<Rightarrow> request \<Rightarrow> bool" where
  \<comment> \<open>First conjunct of the \<open>match\<close> closure.\<close>
  "host_test sp req =
     (let h = or_else (headers_get (headers req) ''host'') []
      in \<not> truthy (host sp) \<or> (h \<noteq> [] \<and> endsWith h (js_string (host sp))))"

definition path_test :: "spec \<Rightarrow> request \<Rightarrow> bool" where
  \<comment> \<open>Second conjunct of the \<open>match\<close> closure.\<close>
  "path_test sp req =
     (let p = or_else (pathInfo req) ''/''
      in \<not> truthy (path sp) \<or> Some p = path sp
         \<or> (p \<noteq> [] \<and> startsWith p (js_string (canonicalPath sp))))"

definition match :: "spec \<Rightarrow> request \<Rightarrow> bool" where
  "match sp req = (host_test sp req \<and> path_test sp req)"

text \<open>What the middleware function does last: it answers itself, or it returns the result
  of a call of the mounted application, or of the wrapped chain \<open>next\<close>, on the request
  as it is at that call.\<close>

datatype outcome =
    Respond response
  | Invoke addr request
  | Next request

definition see_other :: "string \<Rightarrow> response" where
  "see_other location =
     \<lparr> status = 303, rheaders = [(''location'', location)],
       body = [''See other: '', location] \<rparr>"

definition redirect_location :: "spec \<Rightarrow> request \<Rightarrow> string" where
  "redirect_location sp req =
     (let location = scriptName req @ js_string (canonicalPath sp)
      in if truthy (queryString req) then location @ ''?'' @ js_string (queryString req)
         else location)"

definition adjust :: "spec \<Rightarrow> request \<Rightarrow> (js_error \<times> request) + request" where
  \<comment> \<open>Lines 124--127: \<open>scriptName\<close> is extended first, so a failing \<open>slice\<close> leaves the
      request with the longer \<open>scriptName\<close>.\<close>
  "adjust sp req =
     (if truthy (path sp) then
        (let req1 = req\<lparr> scriptName := scriptName req @ js_string (path sp) \<rparr>
         in case pathInfo req1 of
              None \<Rightarrow> Inl (TypeError, req1)
            | Some p \<Rightarrow>
                Inr (req1\<lparr> pathInfo := Some (slice_from (length (js_string (path sp))) p) \<rparr>))
      else Inr req)"

fun mount_loop :: "mount_point list \<Rightarrow> request \<Rightarrow> (js_error \<times> request) + outcome" where
  "mount_loop [] req = Inr (Next req)"
| "mount_loop (m # ms) req =
     (if match (mspec m) req then
        (if redirect m \<and> pathInfo req = path (mspec m) \<and> req_method req = ''GET''
         then Inr (Respond (see_other (redirect_location (mspec m) req)))
         else (case adjust (mspec m) req of
                 Inl e \<Rightarrow> Inl e
               | Inr req' \<Rightarrow> Inr (Invoke (app m) req')))
      else mount_loop ms req)"

definition mount :: "mount_state \<Rightarrow> request \<Rightarrow> (js_error \<times> request) + outcome" where
  \<comment> \<open>\<open>Headers(req.headers)\<close> only equips the header collection with its accessors.\<close>
  "mount st req = mount_loop (mounts st) req"

definition complete :: "(request \<Rightarrow> response) \<Rightarrow> (addr \<Rightarrow> request \<Rightarrow> response) \<Rightarrow> outcome \<Rightarrow> response" where
  \<comment> \<open>The response the middleware returns, given what the applications answer.\<close>
  "complete nxt apps out =
     (case out of Respond r \<Rightarrow> r | Invoke a req \<Rightarrow> apps a req | Next req \<Rightarrow> nxt req)"

section \<open>Reverse resolution: \<open>lookup\<close> of lib/middleware/mount.js\<close>

text \<open>Applications are objects with an identity, here an address. The \<open>mountInfo\<close>
  properties form a finite map from addresses to lists of links; a link names its parent
  by address, so the links may form cycles.\<close>

fun first_unseen :: "link list \<Rightarrow> addr list \<Rightarrow> (addr \<times> link) option" where
  \<comment> \<open>The \<open>for\<close> loop of lines 151--161: the first link whose parent is set and not yet
      in \<open>seen\<close>.\<close>
  "first_unseen [] seen = None"
| "first_unseen (l # ls) seen =
     (case parent l of
        None \<Rightarrow> first_unseen ls seen
      | Some p \<Rightarrow> (if p \<notin> set seen then Some (p, l) else first_unseen ls seen))"

function lookup_loop ::
  "(addr, link list) fmap \<Rightarrow> link list option \<Rightarrow> addr list \<Rightarrow> string \<Rightarrow> string" where
  "lookup_loop h ms seen acc =
     (case ms of
        None \<Rightarrow> acc
      | Some ls \<Rightarrow>
          (case first_unseen ls seen of
             None \<Rightarrow> acc
           | Some (p, l) \<Rightarrow>
               lookup_loop h (fmlookup h p) (seen @ [p]) (or_else (link_path l) [] @ acc)))"
  by pat_completeness auto

lemma first_unseen_Some:
  "first_unseen ls seen = Some (p, l) \<Longrightarrow> p \<notin> set seen \<and> l \<in> set ls \<and> parent l = Some p"
  by (induction ls) (auto split: option.splits if_splits)

lemma lookup_loop_decreases:
  fixes h :: "(addr, link list) fmap"
  assumes "first_unseen ls seen = Some (p, l)"
  shows "2 * card (fmdom' h - set (seen @ [p]))
           + (case fmlookup h p of None \<Rightarrow> 0 | Some _ \<Rightarrow> 1)
         < 2 * card (fmdom' h - set seen) + (1::nat)"
proof -
  from assms have ns: "p \<notin> set seen"
    by (simp add: first_unseen_Some)
  show ?thesis
  proof (cases "fmlookup h p")
    case None
    have "card (fmdom' h - set (seen @ [p])) \<le> card (fmdom' h - set seen)"
      by (rule card_mono) auto
    with None show ?thesis by simp
  next
    case (Some v)
    then have "p \<in> fmdom' h - set seen"
      using ns by (simp add: fmdom'I)
    then have "card ((fmdom' h - set seen) - {p}) < card (fmdom' h - set seen)"
      by (intro card_Diff1_less) simp_all
    moreover have "fmdom' h - set (seen @ [p]) = (fmdom' h - set seen) - {p}"
      by auto
    ultimately have "card (fmdom' h - set (seen @ [p])) < card (fmdom' h - set seen)"
      by metis
    with Some show ?thesis by simp
  qed
qed

termination lookup_loop
  apply (relation "measure (\<lambda>(h, ms, seen, acc).
         2 * card (fmdom' h - set seen) + (case ms of None \<Rightarrow> 0 | Some _ \<Rightarrow> 1))")
   apply simp
  subgoal for h ms seen acc ls x p l
    using lookup_loop_decreases [of ls seen p l h] by simp
  done

declare lookup_loop.simps [simp del]

definition lookup ::
  "(string \<Rightarrow> addr option) \<Rightarrow> (addr, link list) fmap \<Rightarrow> target \<Rightarrow> js_error + string" where
  "lookup require h tgt =
     (case resolveApp require tgt of
        Inl e \<Rightarrow> Inl e
      | Inr resolved \<Rightarrow>
          (case fmlookup h resolved of
             None \<Rightarrow> Inr []
           | Some ls \<Rightarrow> Inr (lookup_loop h (Some ls) [resolved] [])))"

definition links :: "(addr, link list) fmap \<Rightarrow> addr \<Rightarrow> link list" where
  \<comment> \<open>The reverse links an application carries: none when it has no \<open>mountInfo\<close>.\<close>
  "links h a = (case fmlookup h a of None \<Rightarrow> [] | Some ls \<Rightarrow> ls)"

section \<open>The variant lib/stick/middleware/mount.js\<close>

record stick_mount_point =
  sspec :: spec
  target :: addr

record stick_state =
  smounts :: "stick_mount_point list"
  reverse :: "(string, spec) fmap"

definition stick_app_mount ::
  "(string \<Rightarrow> addr option) \<Rightarrow> spec_arg \<Rightarrow> target \<Rightarrow> stick_state
     \<Rightarrow> (js_error + unit) \<times> stick_state" where
  \<comment> \<open>\<open>require i\<close> is \<open>require(i).app\<close> where that is a function. The entry of
      \<open>reverse\<close> is written before the target is resolved.\<close>
  "stick_app_mount require a tgt st =
     (case normalize_spec a of
        Inl e \<Rightarrow> (Inl e, st)
      | Inr sp \<Rightarrow>
          (case tgt of
             ModuleId i \<Rightarrow>
               (let st1 = st\<lparr> reverse := fmupd i sp (reverse st) \<rparr>
                in case require i of
                     None \<Rightarrow> (Inl TargetResolution, st1)
                   | Some f \<Rightarrow>
                       (Inr (), st1\<lparr> smounts := smounts st1 @ [\<lparr> sspec = sp, target = f \<rparr>] \<rparr>))
           | App f \<Rightarrow>
               (Inr (), st\<lparr> smounts := smounts st @ [\<lparr> sspec = sp, target = f \<rparr>] \<rparr>)))"

text \<open>A sequence of \<open>app.mount\<close> calls on one instance of the variant, and, read off the
  sequence of calls alone, the spec of the latest call that named the identifier \<open>i\<close>
  as its target and got past the check of its \<open>spec\<close> argument.\<close>

fun stick_mount_all ::
  "(string \<Rightarrow> addr option) \<Rightarrow> (spec_arg \<times> target) list \<Rightarrow> stick_state \<Rightarrow> stick_state" where
  "stick_mount_all require [] st = st"
| "stick_mount_all require ((a, tgt) # cs) st =
     stick_mount_all require cs (snd (stick_app_mount require a tgt st))"

fun latest_registration :: "(spec_arg \<times> target) list \<Rightarrow> string \<Rightarrow> spec option" where
  "latest_registration [] i = None"
| "latest_registration ((a, tgt) # cs) i =
     (case latest_registration cs i of
        Some sp \<Rightarrow> Some sp
      | None \<Rightarrow>
          (if tgt = ModuleId i
           then (case normalize_spec a of Inl e \<Rightarrow> None | Inr sp \<Rightarrow> Some sp)
           else None))"

definition hex_digit :: "nat \<Rightarrow> char" where
  "hex_digit n = ''0123456789ABCDEF'' ! (n mod 16)"

definition percent :: "nat \<Rightarrow> string" where
  "percent n = [CHR ''%'', hex_digit (n div 16), hex_digit n]"

definition uri_unescaped :: "char \<Rightarrow> bool" where
  \<comment> \<open>The code units \<open>encodeURI\<close> leaves as they are: letters, digits, the marks, the
      reserved characters and the number sign.\<close>
  "uri_unescaped c =
     (c \<in> set ''ABCDEFGHIJKLMNOPQRSTUVWXYZabcdefghijklmnopqrstuvwxyz0123456789''
      \<or> c \<in> set ''-_.!~*()'' \<or> c = CHR 0x27
      \<or> c \<in> set '';/?:@&=+$,#'')"

text \<open>ECMAScript \<open>encodeURI\<close> on a sequence of UTF-16 code units: a code unit of the
  unescaped set is kept; any other code point (a surrogate pair being one code point) is
  replaced by the escaped octets of its UTF-8 encoding; a lone surrogate is a URIError.\<close>

definition utf8 :: "nat \<Rightarrow> nat list" where
  \<comment> \<open>The octets of the UTF-8 encoding of a code point.\<close>
  "utf8 v =
     (if v < 0x80 then [v]
      else if v < 0x800 then [0xC0 + v div 64, 0x80 + v mod 64]
      else if v < 0x10000 then [0xE0 + v div 4096, 0x80 + (v div 64) mod 64, 0x80 + v mod 64]
      else [0xF0 + v div 262144, 0x80 + (v div 4096) mod 64, 0x80 + (v div 64) mod 64,
            0x80 + v mod 64])"

fun encodeURI_units :: "nat list \<Rightarrow> js_error + string" where
  "encodeURI_units [] = Inr []"
| "encodeURI_units (c # cs) =
     (if c < 128 \<and> uri_unescaped (char_of c) then
        (case encodeURI_units cs of Inl e \<Rightarrow> Inl e | Inr r \<Rightarrow> Inr (char_of c # r))
      else if 0xDC00 \<le> c \<and> c \<le> 0xDFFF then Inl URIError
      else if \<not> (0xD800 \<le> c \<and> c \<le> 0xDBFF) then
        (case encodeURI_units cs of
           Inl e \<Rightarrow> Inl e
         | Inr r \<Rightarrow> Inr (concat (map percent (utf8 c)) @ r))
      else
        (case cs of
           [] \<Rightarrow> Inl URIError
         | d # ds \<Rightarrow>
             (if \<not> (0xDC00 \<le> d \<and> d \<le> 0xDFFF) then Inl URIError
              else (case encodeURI_units ds of
                      Inl e \<Rightarrow> Inl e
                    | Inr r \<Rightarrow>
                        Inr (concat (map percent
                               (utf8 ((c - 0xD800) * 0x400 + (d - 0xDC00) + 0x10000))) @ r)))))"

definition encodeURI :: "string \<Rightarrow> string" where
  \<comment> \<open>\<open>encodeURI\<close> on the strings of this model, whose code units are below 256: no
      surrogate occurs, so nothing is thrown, and an escaped code unit gives one or two
      octets. Lemma \<open>encodeURI_units_string\<close> shows that this is \<open>encodeURI_units\<close> on
      such strings.\<close>
  "encodeURI s =
     concat (map (\<lambda>c. let n = (of_char c :: nat)
                       in if uri_unescaped c then [c]
                          else if n < 128 then percent n
                          else percent (192 + n div 64) @ percent (128 + n mod 64)) s)"

definition lookupModule_fn ::
  "(string, spec) fmap \<Rightarrow> string \<Rightarrow> (string \<Rightarrow> string) option \<Rightarrow> string \<Rightarrow> string" where
  \<comment> \<open>The function of lines 62--71, over the variables it closes over: the table
      \<open>reverse\<close> (as it is while the request is served), \<open>base\<close> and \<open>parentLookup\<close>.\<close>
  "lookupModule_fn tab base parentLookup i =
     (let fallback = (case parentLookup of
                        Some f \<Rightarrow> f i
                      | None \<Rightarrow> ''/_'' @ i @ ''_(unresolved_module)'')
      in case fmlookup tab i of
           None \<Rightarrow> fallback
         | Some sp \<Rightarrow>
             (if truthy (canonicalPath sp)
              then encodeURI (base @ js_string (canonicalPath sp))
              else fallback))"

fun stick_mount_loop ::
  "stick_mount_point list \<Rightarrow> request \<Rightarrow> (js_error \<times> request) + outcome" where
  "stick_mount_loop [] req = Inr (Next req)"
| "stick_mount_loop (m # ms) req =
     (if match (sspec m) req then
        (if pathInfo req = path (sspec m) \<and> req_method req = ''GET''
         then (let location = redirect_location (sspec m) req
               in Inr (Respond \<lparr> status = 303, rheaders = [(''Location'', location)],
                                 body = [''See other: '', location] \<rparr>))
         else (case adjust (sspec m) req of
                 Inl e \<Rightarrow> Inl e
               | Inr req' \<Rightarrow> Inr (Invoke (target m) req')))
      else stick_mount_loop ms req)"

definition stick_mount :: "stick_state \<Rightarrow> request \<Rightarrow> (js_error \<times> request) + outcome" where
  "stick_mount st req =
     (let base = scriptName req;
          parentLookup = lookupModule req;
          req1 = req\<lparr> lookupModule := Some (lookupModule_fn (reverse st) base parentLookup) \<rparr>
      in stick_mount_loop (smounts st) req1)"

definition outcome_request :: "outcome \<Rightarrow> request option" where
  \<comment> \<open>The request an application or the wrapped chain is called on, if any.\<close>
  "outcome_request out =
     (case out of Respond r \<Rightarrow> None | Invoke a req \<Rightarrow> Some req | Next req \<Rightarrow> Some req)"

section \<open>Unfolding the JavaScript operators\<close>

lemmas js_defs = truthy_def or_else_def js_string_def endsWith_def startsWith_def
  slice_from_def slice_0_minus1_def

lemmas match_defs = match_def host_test_def path_test_def headers_get_def

section \<open>The registry is ordered by specificity\<close>

lemma insert_sorted_split:
  "insert_sorted cmp x ys =
     takeWhile (\<lambda>y. cmp y x \<le> 0) ys @ x # dropWhile (\<lambda>y. cmp y x \<le> 0) ys"
  by (induction ys) simp_all

lemma array_sort_snoc:
  "array_sort cmp (xs @ [x]) = insert_sorted cmp x (array_sort cmp xs)"
  by (simp add: array_sort_def)

lemma mostSpecificPathFirst_le:
  "mostSpecificPathFirst y x \<le> 0 \<longleftrightarrow> specificity x \<le> specificity y"
  by (simp add: mostSpecificPathFirst_def specificity_def Let_def)

lemma insert_mount_split:
  "insert_sorted mostSpecificPathFirst x ms =
     takeWhile (\<lambda>y. specificity x \<le> specificity y) ms
       @ x # dropWhile (\<lambda>y. specificity x \<le> specificity y) ms"
  by (simp add: insert_sorted_split mostSpecificPathFirst_le)

lemma dropWhile_below:
  assumes "sorted_wrt (\<lambda>a b. specificity b \<le> specificity a) ms"
    and "y \<in> set (dropWhile (\<lambda>y. n \<le> specificity y) ms)"
  shows "specificity y < n"
  using assms
proof (induction ms)
  case Nil
  then show ?case by simp
next
  case (Cons m ms)
  show ?case
  proof (cases "n \<le> specificity m")
    case True
    with Cons show ?thesis by simp
  next
    case False
    with Cons.prems have "y = m \<or> y \<in> set ms" by simp
    with Cons.prems False show ?thesis by auto
  qed
qed

lemma insert_mount_sorted:
  assumes "sorted_wrt (\<lambda>a b. specificity b \<le> specificity a) ms"
  shows "sorted_wrt (\<lambda>a b. specificity b \<le> specificity a)
           (insert_sorted mostSpecificPathFirst x ms)"
proof -
  let ?P = "\<lambda>y. specificity x \<le> specificity y"
  have s: "sorted_wrt (\<lambda>a b. specificity b \<le> specificity a) (takeWhile ?P ms)
         \<and> sorted_wrt (\<lambda>a b. specificity b \<le> specificity a) (dropWhile ?P ms)"
    using assms by (metis sorted_wrt_append takeWhile_dropWhile_id)
  have tw: "\<forall>y \<in> set (takeWhile ?P ms). specificity x \<le> specificity y"
    by (auto dest: set_takeWhileD)
  have dw: "\<forall>y \<in> set (dropWhile ?P ms). specificity y < specificity x"
    using dropWhile_below [OF assms] by blast
  show ?thesis
    unfolding insert_mount_split
    using s tw dw by (fastforce simp: sorted_wrt_append)
qed

lemma insert_mount_filter:
  assumes "sorted_wrt (\<lambda>a b. specificity b \<le> specificity a) ms"
  shows "filter (\<lambda>m. specificity m = k) (insert_sorted mostSpecificPathFirst x ms)
         = filter (\<lambda>m. specificity m = k) (ms @ [x])"
proof -
  let ?P = "\<lambda>y. specificity x \<le> specificity y"
  let ?F = "filter (\<lambda>m. specificity m = k)"
  have split: "?F ms = ?F (takeWhile ?P ms) @ ?F (dropWhile ?P ms)"
    by (metis filter_append takeWhile_dropWhile_id)
  have dw: "\<forall>y \<in> set (dropWhile ?P ms). specificity y < specificity x"
    using dropWhile_below [OF assms] by blast
  show ?thesis
  proof (cases "specificity x = k")
    case True
    with dw have "?F (dropWhile ?P ms) = []"
      by (auto simp: filter_empty_conv)
    with True split show ?thesis
      by (simp add: insert_mount_split)
  next
    case False
    with split show ?thesis
      by (simp add: insert_mount_split)
  qed
qed

lemma array_sort_sorted_id:
  "sorted_wrt (\<lambda>a b. specificity b \<le> specificity a) ms
     \<Longrightarrow> array_sort mostSpecificPathFirst ms = ms"
proof (induction ms rule: rev_induct)
  case Nil
  then show ?case by (simp add: array_sort_def)
next
  case (snoc x xs)
  then have xs: "sorted_wrt (\<lambda>a b. specificity b \<le> specificity a) xs"
    and le: "\<forall>y \<in> set xs. specificity x \<le> specificity y"
    by (auto simp: sorted_wrt_append)
  from le have "takeWhile (\<lambda>y. specificity x \<le> specificity y) xs = xs"
    and "dropWhile (\<lambda>y. specificity x \<le> specificity y) xs = []"
    by simp_all
  with snoc.IH [OF xs] show ?case
    by (simp add: array_sort_snoc insert_mount_split)
qed

lemma app_mount_mounts:
  "mounts (snd (app_mount require this a tgt noRedirect st)) =
     (case registered_mount require (a, tgt, noRedirect) of
        None \<Rightarrow> mounts st
      | Some m \<Rightarrow> array_sort mostSpecificPathFirst (mounts st @ [m]))"
  by (simp add: app_mount_def registered_mount_def Let_def split: sum.splits)

lemma app_mount_step:
  assumes "sorted_wrt (\<lambda>a b. specificity b \<le> specificity a) (mounts st)"
  shows "mounts (snd (app_mount require this a tgt noRedirect st)) =
     (case registered_mount require (a, tgt, noRedirect) of
        None \<Rightarrow> mounts st
      | Some m \<Rightarrow> insert_sorted mostSpecificPathFirst m (mounts st))"
  using array_sort_sorted_id [OF assms]
  by (simp add: app_mount_mounts array_sort_snoc split: option.splits)

lemma mount_all_sorted_stable:
  assumes "sorted_wrt (\<lambda>a b. specificity b \<le> specificity a) (mounts st)"
  shows "sorted_wrt (\<lambda>a b. specificity b \<le> specificity a) (mounts (mount_all require this cs st))
       \<and> (\<forall>k. filter (\<lambda>m. specificity m = k) (mounts (mount_all require this cs st))
              = filter (\<lambda>m. specificity m = k) (mounts st @ registration_order require cs))"
  using assms
proof (induction cs arbitrary: st)
  case Nil
  then show ?case by (simp add: registration_order_def map_filter_simps)
next
  case (Cons c cs)
  obtain a tgt nr where c: "c = (a, tgt, nr)" by (cases c)
  let ?st = "snd (app_mount require this a tgt nr st)"
  show ?case
  proof (cases "registered_mount require (a, tgt, nr)")
    case None
    then have "mounts ?st = mounts st"
      by (simp add: app_mount_mounts)
    with Cons.IH [of ?st] Cons.prems None c show ?thesis
      by (simp add: registration_order_def map_filter_simps)
  next
    case (Some m)
    then have eq: "mounts ?st = insert_sorted mostSpecificPathFirst m (mounts st)"
      using app_mount_step [OF Cons.prems] by simp
    then have srt: "sorted_wrt (\<lambda>a b. specificity b \<le> specificity a) (mounts ?st)"
      using insert_mount_sorted [OF Cons.prems] by simp
    have flt: "\<And>k. filter (\<lambda>m. specificity m = k) (mounts ?st)
                 = filter (\<lambda>m. specificity m = k) (mounts st @ [m])"
      using insert_mount_filter [OF Cons.prems] eq by simp
    from Cons.IH [OF srt] Some c flt show ?thesis
      by (simp add: registration_order_def map_filter_simps)
  qed
qed

lemma length_filter_count_list:
  "length (filter (\<lambda>c. c = x) xs) = count_list xs x"
  by (induction xs) simp_all

lemma specificity_count_list:
  "specificity m = count_list (case path (mspec m) of None \<Rightarrow> [] | Some p \<Rightarrow> p) CHR ''/''"
  by (simp add: specificity_def slashes_def or_else_def length_filter_count_list
      split: option.splits)

text \<open>
  Claim C1. After every call of \<open>app.mount\<close> the \<open>mounts\<close> array is sorted by descending
  number of \<open>/\<close> characters in the mount's path (no path counting as 0), and mounts with
  the same number stand in the order in which they were registered: for every number
  \<open>k\<close>, the mounts of that number are the same list in the registry as in the sequence
  of registrations. The number of \<open>/\<close> characters is counted by the library's
  \<open>count_list\<close>, not by the comparator's own helper. The statement holds after any
  sequence of calls, whether or not some of them throw, on a middleware instance that
  starts with no mounts; \<open>array_sort\<close> is the stable sort of ECMAScript 2019. In the
  example, five mounts registered as \<open>/a/b\<close>, \<open>/x\<close>, a host, \<open>/y/\<close> and \<open>/c/d/e\<close> end
  up in the order \<open>/c/d/e\<close>, \<open>/a/b\<close>, \<open>/x\<close>, \<open>/y\<close>, host.
\<close>

theorem C1_mounts_sorted_by_specificity:
  "sorted_wrt
     (\<lambda>m1 m2. count_list (case path (mspec m2) of None \<Rightarrow> [] | Some p \<Rightarrow> p) CHR ''/''
               \<le> count_list (case path (mspec m1) of None \<Rightarrow> [] | Some p \<Rightarrow> p) CHR ''/'')
     (mounts (mount_all require this cs \<lparr> mounts = [], mountInfo = h \<rparr>))
   \<and> (\<forall>k. filter (\<lambda>m. count_list (case path (mspec m) of None \<Rightarrow> [] | Some p \<Rightarrow> p)
                          CHR ''/'' = k)
             (mounts (mount_all require this cs \<lparr> mounts = [], mountInfo = h \<rparr>))
          = filter (\<lambda>m. count_list (case path (mspec m) of None \<Rightarrow> [] | Some p \<Rightarrow> p)
                          CHR ''/'' = k)
             (registration_order require cs))"
  using mount_all_sorted_stable [of "\<lparr> mounts = [], mountInfo = h \<rparr>" require this cs]
  by (simp add: specificity_count_list)

theorem C1_mounts_sorted_by_specificity_witness:
  "sorted_wrt
     (\<lambda>m1 m2. count_list (case path (mspec m2) of None \<Rightarrow> [] | Some p \<Rightarrow> p) CHR ''/''
               \<le> count_list (case path (mspec m1) of None \<Rightarrow> [] | Some p \<Rightarrow> p) CHR ''/'')
     (mounts (mount_all (\<lambda>i. None) 0
        [(SpecString ''/a/b'', App 1, False), (SpecString ''/x'', App 2, False),
         (SpecFalsy, App 9, False), (SpecObject None (Some ''h.org''), App 5, True),
         (SpecString ''/y/'', App 3, False), (SpecString ''/c/d/e'', App 4, False)]
        \<lparr> mounts = [], mountInfo = fmempty \<rparr>))
   \<and> map (\<lambda>m. (app m, path (mspec m)))
     (mounts (mount_all (\<lambda>i. None) 0
        [(SpecString ''/a/b'', App 1, False), (SpecString ''/x'', App 2, False),
         (SpecFalsy, App 9, False), (SpecObject None (Some ''h.org''), App 5, True),
         (SpecString ''/y/'', App 3, False), (SpecString ''/c/d/e'', App 4, False)]
        \<lparr> mounts = [], mountInfo = fmempty \<rparr>))
     = [(4, Some ''/c/d/e''), (1, Some ''/a/b''), (2, Some ''/x''), (3, Some ''/y''), (5, None)]"
proof -
  let ?cs = "[(SpecString ''/a/b'', App 1, False), (SpecString ''/x'', App 2, False),
         (SpecFalsy, App 9, False), (SpecObject None (Some ''h.org''), App 5, True),
         (SpecString ''/y/'', App 3, False), (SpecString ''/c/d/e'', App 4, False)]"
  have order: "map (\<lambda>m. (app m, path (mspec m)))
     (mounts (mount_all (\<lambda>i. None) 0 ?cs \<lparr> mounts = [], mountInfo = fmempty \<rparr>))
     = [(4, Some ''/c/d/e''), (1, Some ''/a/b''), (2, Some ''/x''), (3, Some ''/y''), (5, None)]"
    by (simp add: app_mount_def normalize_spec_def resolveApp_def js_defs array_sort_def
        mostSpecificPathFirst_def slashes_def Let_def)
  from C1_mounts_sorted_by_specificity [of "\<lambda>i. None" 0 ?cs fmempty] order show ?thesis
    by blast
qed

section \<open>Dispatch: redirect, rewriting, fall-through\<close>

lemma endsWith_suffix: "endsWith s t \<longleftrightarrow> suffix t s"
proof
  assume "endsWith s t"
  then have "s = take (length s - length t) s @ t"
    by (metis append_take_drop_id endsWith_def)
  then show "suffix t s"
    by (metis suffixI)
next
  assume "suffix t s"
  then obtain zs where "s = zs @ t"
    by (auto simp: suffix_def)
  then show "endsWith s t"
    by (simp add: endsWith_def)
qed

lemma startsWith_prefix: "startsWith s t \<longleftrightarrow> prefix t s"
proof
  assume "startsWith s t"
  then have "s = t @ drop (length t) s"
    by (metis append_take_drop_id startsWith_def)
  then show "prefix t s"
    by (metis prefixI)
next
  assume "prefix t s"
  then obtain zs where "s = t @ zs"
    by (auto simp: prefix_def)
  then show "startsWith s t"
    by (simp add: startsWith_def)
qed

lemma endsWith_slash: "endsWith s ''/'' \<longleftrightarrow> s \<noteq> [] \<and> last s = CHR ''/''"
  by (cases s rule: rev_cases) (simp_all add: endsWith_def)

lemma normalize_spec_canonicalPath:
  assumes "normalize_spec a = Inr sp" and "path sp = Some p" and "p \<noteq> []"
  shows "canonicalPath sp = Some (p @ ''/'')"
proof -
  obtain p0 h0 where a: "(case a of SpecString s \<Rightarrow> Inr (Some s, None)
            | SpecObject p h \<Rightarrow> Inr (p, h)
            | SpecFalsy \<Rightarrow> Inl MissingSpec) = (Inr (p0, h0) :: js_error + (string option \<times> string option))"
    using assms(1) by (cases a) (simp_all add: normalize_spec_def)
  show ?thesis
  proof (cases "truthy p0")
    case False
    with a assms show ?thesis
      by (auto simp: normalize_spec_def truthy_def split: option.splits)
  next
    case True
    then obtain s where s: "p0 = Some s" "s \<noteq> []"
      by (auto simp: truthy_def split: option.splits)
    show ?thesis
    proof (cases "endsWith s ''/''")
      case True
      then have "s = butlast s @ ''/''"
        by (metis append_butlast_last_id endsWith_slash)
      with a assms s True show ?thesis
        by (auto simp: normalize_spec_def truthy_def slice_0_minus1_def)
    next
      case False
      with a assms s show ?thesis
        by (auto simp: normalize_spec_def truthy_def)
    qed
  qed
qed

lemma normalize_spec_host:
  assumes "normalize_spec a = Inr sp"
  shows "host sp = None \<or> (\<exists>h. host sp = Some h \<and> h \<noteq> [])"
  using assms
  by (cases a) (auto simp: normalize_spec_def truthy_def split: option.splits if_splits)

lemma mount_loop_find:
  "mount_loop ms req =
     (case find (\<lambda>m. match (mspec m) req) ms of
        None \<Rightarrow> Inr (Next req)
      | Some m \<Rightarrow>
          (if redirect m \<and> pathInfo req = path (mspec m) \<and> req_method req = ''GET''
           then Inr (Respond (see_other (redirect_location (mspec m) req)))
           else (case adjust (mspec m) req of
                   Inl e \<Rightarrow> Inl e
                 | Inr req' \<Rightarrow> Inr (Invoke (app m) req'))))"
  by (induction ms) simp_all

lemma registered_mount_Some:
  assumes "registered_mount require (a, tgt, noRedirect) = Some m"
  shows "normalize_spec a = Inr (mspec m) \<and> redirect m = (\<not> noRedirect)
         \<and> resolveApp require tgt = Inr (app m)"
  using assms by (auto simp: registered_mount_def split: sum.splits)

lemma stick_mount_loop_none:
  "\<forall>m \<in> set ms. \<not> match (sspec m) req \<Longrightarrow> stick_mount_loop ms req = Inr (Next req)"
  by (induction ms) simp_all

lemma mount_loop_none:
  "\<forall>m \<in> set ms. \<not> match (mspec m) req \<Longrightarrow> mount_loop ms req = Inr (Next req)"
  by (induction ms) simp_all

lemma match_lookupModule_update [simp]:
  "match sp (req\<lparr> lookupModule := f \<rparr>) = match sp req"
  by (simp add: match_defs)

lemma adjust_without_pathInfo:
  "truthy (path sp) \<Longrightarrow> pathInfo req = None \<Longrightarrow>
     adjust sp req = Inl (TypeError, req\<lparr> scriptName := scriptName req @ js_string (path sp) \<rparr>)"
  by (simp add: adjust_def Let_def)

text \<open>
  Claim C2. Let \<open>m\<close> be the mount that matches the request (the first one of the registry
  whose \<open>match\<close> holds), registered by a call with the third argument \<open>noRedirect\<close>, with
  a non-empty path \<open>p\<close>. The middleware answers by itself, without calling the mounted
  application, exactly when \<open>noRedirect\<close> is false, \<open>pathInfo\<close> is \<open>p\<close> and the method is
  GET; the answer then has status 303 and the location \<open>scriptName + p + "/"\<close>, followed
  by \<open>"?" + queryString\<close> when the query string is not empty. With \<open>noRedirect\<close> true the
  same GET request for the bare prefix is passed to the mounted application with
  \<open>scriptName\<close> extended by \<open>p\<close> and \<open>pathInfo\<close> the empty string.
\<close>

theorem C2_redirect_on_missing_slash:
  assumes "find (\<lambda>m. match (mspec m) req) (mounts st) = Some m"
    and "registered_mount require (a, tgt, noRedirect) = Some m"
    and "path (mspec m) = Some p" and "p \<noteq> []"
  shows "((\<exists>r. mount st req = Inr (Respond r)) \<longleftrightarrow>
            (\<not> noRedirect \<and> pathInfo req = Some p \<and> req_method req = ''GET''))
       \<and> ((\<not> noRedirect \<and> pathInfo req = Some p \<and> req_method req = ''GET'') \<longrightarrow>
            mount st req = Inr (Respond
              \<lparr> status = 303,
                rheaders = [(''location'', scriptName req @ p @ ''/'' @
                   (case queryString req of None \<Rightarrow> []
                    | Some q \<Rightarrow> if q = [] then [] else ''?'' @ q))],
                body = [''See other: '', scriptName req @ p @ ''/'' @
                   (case queryString req of None \<Rightarrow> []
                    | Some q \<Rightarrow> if q = [] then [] else ''?'' @ q)] \<rparr>))
       \<and> ((noRedirect \<and> pathInfo req = Some p \<and> req_method req = ''GET'') \<longrightarrow>
            mount st req = Inr (Invoke (app m)
              (req\<lparr> scriptName := scriptName req @ p, pathInfo := Some [] \<rparr>)))"
proof -
  have cp: "canonicalPath (mspec m) = Some (p @ ''/'')"
    using registered_mount_Some [OF assms(2)] assms(3,4)
    by (blast intro: normalize_spec_canonicalPath)
  have rd: "redirect m = (\<not> noRedirect)"
    using registered_mount_Some [OF assms(2)] by simp
  have m: "mount st req =
          (if redirect m \<and> pathInfo req = path (mspec m) \<and> req_method req = ''GET''
           then Inr (Respond (see_other (redirect_location (mspec m) req)))
           else (case adjust (mspec m) req of
                   Inl e \<Rightarrow> Inl e
                 | Inr req' \<Rightarrow> Inr (Invoke (app m) req')))"
    using assms(1) by (simp add: mount_def mount_loop_find)
  have c1: "(\<exists>r. mount st req = Inr (Respond r)) \<longleftrightarrow>
            (\<not> noRedirect \<and> pathInfo req = Some p \<and> req_method req = ''GET'')"
    unfolding m using rd assms(3) by (auto split: sum.splits)
  have c2: "(\<not> noRedirect \<and> pathInfo req = Some p \<and> req_method req = ''GET'') \<longrightarrow>
            mount st req = Inr (Respond
              \<lparr> status = 303,
                rheaders = [(''location'', scriptName req @ p @ ''/'' @
                   (case queryString req of None \<Rightarrow> []
                    | Some q \<Rightarrow> if q = [] then [] else ''?'' @ q))],
                body = [''See other: '', scriptName req @ p @ ''/'' @
                   (case queryString req of None \<Rightarrow> []
                    | Some q \<Rightarrow> if q = [] then [] else ''?'' @ q)] \<rparr>)"
    unfolding m using rd assms(3) cp
    by (auto simp: see_other_def redirect_location_def js_string_def truthy_def Let_def
        split: option.splits)
  have c3: "(noRedirect \<and> pathInfo req = Some p \<and> req_method req = ''GET'') \<longrightarrow>
            mount st req = Inr (Invoke (app m)
              (req\<lparr> scriptName := scriptName req @ p, pathInfo := Some [] \<rparr>))"
    unfolding m using rd assms(3,4)
    by (auto simp: adjust_def truthy_def js_string_def slice_from_def Let_def)
  from c1 c2 c3 show ?thesis by blast
qed


theorem C2_redirect_on_missing_slash_witness:
  "mount \<lparr> mounts = [\<lparr> mspec = \<lparr> path = Some ''/wiki'', canonicalPath = Some ''/wiki/'',
                                    host = None \<rparr>, redirect = True, app = 1 \<rparr>],
           mountInfo = fmempty \<rparr>
         \<lparr> scriptName = ''/app'', pathInfo = Some ''/wiki'', headers = [],
           req_method = ''GET'', queryString = Some ''x=1'', lookupModule = None \<rparr>
   = Inr (Respond \<lparr> status = 303, rheaders = [(''location'', ''/app/wiki/?x=1'')],
                    body = [''See other: '', ''/app/wiki/?x=1''] \<rparr>)"
proof -
  let ?m = "\<lparr> mspec = \<lparr> path = Some ''/wiki'', canonicalPath = Some ''/wiki/'',
                        host = None \<rparr>, redirect = True, app = 1 \<rparr>"
  let ?st = "\<lparr> mounts = [?m], mountInfo = fmempty \<rparr>"
  let ?req = "\<lparr> scriptName = ''/app'', pathInfo = Some ''/wiki'', headers = [],
           req_method = ''GET'', queryString = Some ''x=1'', lookupModule = None \<rparr>"
  have h1: "find (\<lambda>m. match (mspec m) ?req) (mounts ?st) = Some ?m"
    by (simp add: match_defs js_defs)
  have h2: "registered_mount (\<lambda>i. None) (SpecString ''/wiki'', App 1, False) = Some ?m"
    by (simp add: registered_mount_def normalize_spec_def resolveApp_def js_defs)
  have h3: "path (mspec ?m) = Some ''/wiki''" by simp
  have h4: "''/wiki'' \<noteq> []" by simp
  from C2_redirect_on_missing_slash [OF h1 h2 h3 h4] show ?thesis
    by simp
qed

text \<open>
  Claim C3. Let \<open>m\<close> be the mount that matches the request, and let no redirect be issued.
  If \<open>m\<close> has a non-empty path \<open>p\<close> and the request carries a \<open>pathInfo\<close>, the mounted
  application is called on the request with \<open>scriptName\<close> extended by \<open>p\<close> and with the
  first \<open>length p\<close> code units of \<open>pathInfo\<close> removed, so that a \<open>pathInfo\<close> of \<open>p\<close>
  followed by \<open>r\<close> becomes \<open>r\<close>, leading slash included. If \<open>m\<close> has no path (a host-only
  mount), the application is called on the request as it came. In both cases what the
  middleware returns is what the application returns.
\<close>

theorem C3_rewrite_scriptName_pathInfo:
  assumes "find (\<lambda>m. match (mspec m) req) (mounts st) = Some m"
    and "\<not> (redirect m \<and> pathInfo req = path (mspec m) \<and> req_method req = ''GET'')"
  shows "(\<forall>p q. path (mspec m) = Some p \<and> p \<noteq> [] \<and> pathInfo req = Some q \<longrightarrow>
            mount st req = Inr (Invoke (app m)
              (req\<lparr> scriptName := scriptName req @ p, pathInfo := Some (drop (length p) q) \<rparr>)))
       \<and> (\<forall>p r. path (mspec m) = Some p \<and> p \<noteq> [] \<and> pathInfo req = Some (p @ r) \<longrightarrow>
            mount st req = Inr (Invoke (app m)
              (req\<lparr> scriptName := scriptName req @ p, pathInfo := Some r \<rparr>)))
       \<and> (path (mspec m) = None \<longrightarrow> mount st req = Inr (Invoke (app m) req))
       \<and> (\<forall>req'. complete nxt apps (Invoke (app m) req') = apps (app m) req')"
proof -
  have m: "mount st req =
             (case adjust (mspec m) req of
                Inl e \<Rightarrow> Inl e
              | Inr req' \<Rightarrow> Inr (Invoke (app m) req'))"
    using assms by (auto simp: mount_def mount_loop_find)
  have c1: "\<forall>p q. path (mspec m) = Some p \<and> p \<noteq> [] \<and> pathInfo req = Some q \<longrightarrow>
            mount st req = Inr (Invoke (app m)
              (req\<lparr> scriptName := scriptName req @ p, pathInfo := Some (drop (length p) q) \<rparr>))"
    unfolding m by (simp add: adjust_def js_defs Let_def)
  have c2: "\<forall>p r. path (mspec m) = Some p \<and> p \<noteq> [] \<and> pathInfo req = Some (p @ r) \<longrightarrow>
            mount st req = Inr (Invoke (app m)
              (req\<lparr> scriptName := scriptName req @ p, pathInfo := Some r \<rparr>))"
    unfolding m by (simp add: adjust_def js_defs Let_def)
  have c3: "path (mspec m) = None \<longrightarrow> mount st req = Inr (Invoke (app m) req)"
    unfolding m by (simp add: adjust_def js_defs)
  have c4: "\<forall>req'. complete nxt apps (Invoke (app m) req') = apps (app m) req'"
    by (simp add: complete_def)
  from c1 c2 c3 c4 show ?thesis by blast
qed

theorem C3_rewrite_scriptName_pathInfo_witness:
  "mount \<lparr> mounts = [\<lparr> mspec = \<lparr> path = Some ''/wiki'', canonicalPath = Some ''/wiki/'',
                                    host = None \<rparr>, redirect = True, app = 1 \<rparr>],
           mountInfo = fmempty \<rparr>
         \<lparr> scriptName = ''/app'', pathInfo = Some ''/wiki/Page'', headers = [],
           req_method = ''GET'', queryString = None, lookupModule = None \<rparr>
   = Inr (Invoke 1 \<lparr> scriptName = ''/app/wiki'', pathInfo = Some ''/Page'', headers = [],
           req_method = ''GET'', queryString = None, lookupModule = None \<rparr>)"
proof -
  let ?m = "\<lparr> mspec = \<lparr> path = Some ''/wiki'', canonicalPath = Some ''/wiki/'',
                        host = None \<rparr>, redirect = True, app = 1 \<rparr>"
  let ?st = "\<lparr> mounts = [?m], mountInfo = fmempty \<rparr>"
  let ?req = "\<lparr> scriptName = ''/app'', pathInfo = Some ''/wiki/Page'', headers = [],
           req_method = ''GET'', queryString = None, lookupModule = None \<rparr>"
  have h1: "find (\<lambda>m. match (mspec m) ?req) (mounts ?st) = Some ?m"
    by (simp add: match_defs js_defs)
  have h2: "\<not> (redirect ?m \<and> pathInfo ?req = path (mspec ?m) \<and> req_method ?req = ''GET'')"
    by simp
  from C3_rewrite_scriptName_pathInfo [OF h1 h2]
  have "mount ?st ?req = Inr (Invoke (app ?m)
              (?req\<lparr> scriptName := scriptName ?req @ ''/wiki'',
                      pathInfo := Some (drop (length ''/wiki'') ''/wiki/Page'') \<rparr>))"
    by simp
  then show ?thesis by simp
qed

text \<open>
  Claim C4. When no mount of the registry matches the request, the middleware returns what
  the wrapped chain \<open>next\<close> returns on the request. In lib/middleware/mount.js the
  request handed on is the one received; in lib/stick/middleware/mount.js it differs only
  in the resolver installed in its environment: \<open>scriptName\<close>, \<open>pathInfo\<close>, \<open>headers\<close>,
  \<open>method\<close> and \<open>queryString\<close> are those received.
\<close>

theorem C4_no_match_falls_through:
  "((\<forall>m \<in> set (mounts st). \<not> match (mspec m) req) \<longrightarrow>
       mount st req = Inr (Next req))
   \<and> ((\<forall>m \<in> set (smounts sst). \<not> match (sspec m) req) \<longrightarrow>
       (\<exists>req'. stick_mount sst req = Inr (Next req')
          \<and> scriptName req' = scriptName req \<and> pathInfo req' = pathInfo req
          \<and> headers req' = headers req \<and> req_method req' = req_method req
          \<and> queryString req' = queryString req))
   \<and> (\<forall>req'. complete nxt apps (Next req') = nxt req')"
proof -
  have c1: "(\<forall>m \<in> set (mounts st). \<not> match (mspec m) req) \<longrightarrow>
       mount st req = Inr (Next req)"
    by (simp add: mount_def mount_loop_none)
  have c2: "(\<forall>m \<in> set (smounts sst). \<not> match (sspec m) req) \<longrightarrow>
       (\<exists>req'. stick_mount sst req = Inr (Next req')
          \<and> scriptName req' = scriptName req \<and> pathInfo req' = pathInfo req
          \<and> headers req' = headers req \<and> req_method req' = req_method req
          \<and> queryString req' = queryString req)"
  proof
    assume a: "\<forall>m \<in> set (smounts sst). \<not> match (sspec m) req"
    let ?req1 = "req\<lparr> lookupModule :=
                   Some (lookupModule_fn (reverse sst) (scriptName req) (lookupModule req)) \<rparr>"
    from a have "\<forall>m \<in> set (smounts sst). \<not> match (sspec m) ?req1"
      by simp
    then have "stick_mount sst req = Inr (Next ?req1)"
      by (simp add: stick_mount_def Let_def stick_mount_loop_none)
    then show "\<exists>req'. stick_mount sst req = Inr (Next req')
          \<and> scriptName req' = scriptName req \<and> pathInfo req' = pathInfo req
          \<and> headers req' = headers req \<and> req_method req' = req_method req
          \<and> queryString req' = queryString req"
      by simp
  qed
  have c3: "\<forall>req'. complete nxt apps (Next req') = nxt req'"
    by (simp add: complete_def)
  from c1 c2 c3 show ?thesis by blast
qed


theorem C4_no_match_falls_through_witness:
  "mount \<lparr> mounts = [\<lparr> mspec = \<lparr> path = Some ''/wiki'', canonicalPath = Some ''/wiki/'',
                                    host = None \<rparr>, redirect = True, app = 1 \<rparr>],
           mountInfo = fmempty \<rparr>
         \<lparr> scriptName = ''/app'', pathInfo = Some ''/blog/1'', headers = [(''host'', ''a.org'')],
           req_method = ''GET'', queryString = Some ''x=1'', lookupModule = None \<rparr>
   = Inr (Next \<lparr> scriptName = ''/app'', pathInfo = Some ''/blog/1'',
                 headers = [(''host'', ''a.org'')],
                 req_method = ''GET'', queryString = Some ''x=1'', lookupModule = None \<rparr>)
   \<and> (\<exists>req'. stick_mount
          \<lparr> smounts = [\<lparr> sspec = \<lparr> path = Some ''/wiki'', canonicalPath = Some ''/wiki/'',
                                    host = None \<rparr>, target = 1 \<rparr>],
            reverse = fmempty \<rparr>
         \<lparr> scriptName = ''/app'', pathInfo = Some ''/blog/1'', headers = [(''host'', ''a.org'')],
           req_method = ''GET'', queryString = Some ''x=1'', lookupModule = None \<rparr>
          = Inr (Next req')
        \<and> scriptName req' = ''/app'' \<and> pathInfo req' = Some ''/blog/1''
        \<and> headers req' = [(''host'', ''a.org'')] \<and> req_method req' = ''GET''
        \<and> queryString req' = Some ''x=1'')"
proof -
  let ?st = "\<lparr> mounts = [\<lparr> mspec = \<lparr> path = Some ''/wiki'', canonicalPath = Some ''/wiki/'',
                                    host = None \<rparr>, redirect = True, app = 1 \<rparr>],
           mountInfo = fmempty \<rparr>"
  let ?sst = "\<lparr> smounts = [\<lparr> sspec = \<lparr> path = Some ''/wiki'', canonicalPath = Some ''/wiki/'',
                                    host = None \<rparr>, target = 1 \<rparr>],
            reverse = fmempty \<rparr>"
  let ?req = "\<lparr> scriptName = ''/app'', pathInfo = Some ''/blog/1'', headers = [(''host'', ''a.org'')],
           req_method = ''GET'', queryString = Some ''x=1'', lookupModule = None \<rparr>"
  have h1: "\<forall>m \<in> set (mounts ?st). \<not> match (mspec m) ?req"
    by (simp add: match_defs js_defs)
  have h2: "\<forall>m \<in> set (smounts ?sst). \<not> match (sspec m) ?req"
    by (simp add: match_defs js_defs)
  from C4_no_match_falls_through [of ?st ?req ?sst] h1 h2 show ?thesis
    by simp
qed

text \<open>
  Claim C6. For a registered spec the host test of \<open>match\<close> passes exactly when the spec
  has no host, or the request has a non-empty Host header of which the spec's host is a
  suffix. A mount for the host \<open>example.com\<close> matches a request for \<open>sub.example.com\<close> and
  does not match a request for \<open>example.org\<close>.
\<close>

theorem C6_host_suffix_test:
  "(normalize_spec a = Inr sp \<longrightarrow>
      (host_test sp req \<longleftrightarrow>
         host sp = None
         \<or> (\<exists>hv hs. headers_get (headers req) ''host'' = Some hv \<and> hv \<noteq> []
                 \<and> host sp = Some hs \<and> suffix hs hv)))
   \<and> (normalize_spec (SpecObject None (Some ''example.com'')) = Inr sp \<longrightarrow>
        headers_get (headers req) ''host'' = Some ''sub.example.com'' \<longrightarrow> match sp req)
   \<and> (normalize_spec (SpecObject None (Some ''example.com'')) = Inr sp \<longrightarrow>
        headers_get (headers req) ''host'' = Some ''example.org'' \<longrightarrow> \<not> match sp req)"
proof -
  have c1: "normalize_spec a = Inr sp \<longrightarrow>
      (host_test sp req \<longleftrightarrow>
         host sp = None
         \<or> (\<exists>hv hs. headers_get (headers req) ''host'' = Some hv \<and> hv \<noteq> []
                 \<and> host sp = Some hs \<and> suffix hs hv))"
  proof
    assume n: "normalize_spec a = Inr sp"
    show "host_test sp req \<longleftrightarrow>
         host sp = None
         \<or> (\<exists>hv hs. headers_get (headers req) ''host'' = Some hv \<and> hv \<noteq> []
                 \<and> host sp = Some hs \<and> suffix hs hv)"
    proof (cases "host sp")
      case None
      then show ?thesis by (simp add: host_test_def truthy_def)
    next
      case (Some hs)
      with normalize_spec_host [OF n] have ne: "hs \<noteq> []" by simp
      show ?thesis
      proof (cases "headers_get (headers req) ''host''")
        case None
        with Some ne show ?thesis
          by (simp add: host_test_def truthy_def or_else_def)
      next
        case (Some hv)
        with \<open>host sp = Some hs\<close> ne show ?thesis
          by (simp add: host_test_def truthy_def or_else_def js_string_def endsWith_suffix)
      qed
    qed
  qed
  have sp: "normalize_spec (SpecObject None (Some ''example.com'')) = Inr sp \<Longrightarrow>
        sp = \<lparr> path = None, canonicalPath = None, host = Some ''example.com'' \<rparr>"
    by (simp add: normalize_spec_def truthy_def)
  have c2: "normalize_spec (SpecObject None (Some ''example.com'')) = Inr sp \<longrightarrow>
        headers_get (headers req) ''host'' = Some ''sub.example.com'' \<longrightarrow> match sp req"
    using sp by (auto simp: match_def host_test_def path_test_def js_defs)
  have c3: "normalize_spec (SpecObject None (Some ''example.com'')) = Inr sp \<longrightarrow>
        headers_get (headers req) ''host'' = Some ''example.org'' \<longrightarrow> \<not> match sp req"
    using sp by (auto simp: match_def host_test_def path_test_def js_defs)
  from c1 c2 c3 show ?thesis by blast
qed

theorem C6_host_suffix_test_witness:
  "match \<lparr> path = None, canonicalPath = None, host = Some ''example.com'' \<rparr>
         \<lparr> scriptName = [], pathInfo = Some ''/x'', headers = [(''host'', ''sub.example.com'')],
           req_method = ''GET'', queryString = None, lookupModule = None \<rparr>
   \<and> host_test \<lparr> path = None, canonicalPath = None, host = Some ''example.com'' \<rparr>
         \<lparr> scriptName = [], pathInfo = Some ''/x'', headers = [(''host'', ''sub.example.com'')],
           req_method = ''GET'', queryString = None, lookupModule = None \<rparr>"
proof -
  let ?sp = "\<lparr> path = None, canonicalPath = None, host = Some ''example.com'' \<rparr>"
  let ?req = "\<lparr> scriptName = [], pathInfo = Some ''/x'', headers = [(''host'', ''sub.example.com'')],
           req_method = ''GET'', queryString = None, lookupModule = None \<rparr>"
  have n: "normalize_spec (SpecObject None (Some ''example.com'')) = Inr ?sp"
    by (simp add: normalize_spec_def truthy_def)
  have hd: "headers_get (headers ?req) ''host'' = Some ''sub.example.com''"
    by (simp add: headers_get_def)
  have sf: "suffix ''example.com'' ''sub.example.com''"
    by (simp add: suffix_def)
  from C6_host_suffix_test [of "SpecObject None (Some ''example.com'')" ?sp ?req] n hd sf
  show ?thesis by simp
qed

text \<open>
  Claim C10. In \<open>match\<close> a request whose \<open>pathInfo\<close> is absent or empty is tested as if
  its \<open>pathInfo\<close> were \<open>"/"\<close>: it passes the path test of a spec without a path and of a
  spec whose canonical path is \<open>"/"\<close>, and fails the path test of every registered spec
  whose path is longer than \<open>"/"\<close>. The comparison that decides the redirect reads
  \<open>pathInfo\<close> itself: the matched mount answers with the redirect exactly when its
  redirect is enabled, the method is GET and \<open>pathInfo\<close> as received equals the mount's
  path, so a matched mount whose path is \<open>"/"\<close> never redirects such a request.
\<close>

theorem C10_empty_pathInfo_is_root:
  assumes "pathInfo req = None \<or> pathInfo req = Some []"
  shows "path_test sp req = path_test sp (req\<lparr> pathInfo := Some ''/'' \<rparr>)
       \<and> (path sp = None \<longrightarrow> path_test sp req)
       \<and> (canonicalPath sp = Some ''/'' \<longrightarrow> path_test sp req)
       \<and> (\<forall>a p. normalize_spec a = Inr sp \<and> path sp = Some p \<and> 1 < length p
             \<longrightarrow> \<not> path_test sp req)
       \<and> (\<forall>m. find (\<lambda>m. match (mspec m) req) (mounts st) = Some m \<longrightarrow>
             ((\<exists>r. mount st req = Inr (Respond r)) \<longleftrightarrow>
                redirect m \<and> pathInfo req = path (mspec m) \<and> req_method req = ''GET''))
       \<and> (\<forall>m. find (\<lambda>m. match (mspec m) req) (mounts st) = Some m
                \<and> path (mspec m) = Some ''/'' \<longrightarrow>
             (\<forall>r. mount st req \<noteq> Inr (Respond r)))"
proof -
  have p: "or_else (pathInfo req) ''/'' = ''/''"
    using assms by (auto simp: or_else_def)
  have c1: "path_test sp req = path_test sp (req\<lparr> pathInfo := Some ''/'' \<rparr>)"
    using p by (simp add: path_test_def or_else_def)
  have c2: "path sp = None \<longrightarrow> path_test sp req"
    by (simp add: path_test_def truthy_def)
  have c3: "canonicalPath sp = Some ''/'' \<longrightarrow> path_test sp req"
    using p by (simp add: path_test_def js_string_def startsWith_def)
  have c4: "\<forall>a p. normalize_spec a = Inr sp \<and> path sp = Some p \<and> 1 < length p
             \<longrightarrow> \<not> path_test sp req"
  proof (intro allI impI)
    fix a q
    assume h: "normalize_spec a = Inr sp \<and> path sp = Some q \<and> 1 < length q"
    then have ne: "q \<noteq> []" by auto
    with h have cp: "canonicalPath sp = Some (q @ ''/'')"
      by (blast intro: normalize_spec_canonicalPath)
    from h have "q \<noteq> ''/''" by auto
    moreover have "take (Suc (length q)) ''/'' \<noteq> q @ ''/''"
    proof
      assume "take (Suc (length q)) ''/'' = q @ ''/''"
      then have "length (take (Suc (length q)) ''/'') = length (q @ ''/'')"
        by (rule arg_cong)
      with h show False by simp
    qed
    ultimately show "\<not> path_test sp req"
      using h p cp ne by (simp add: path_test_def truthy_def js_string_def startsWith_def)
  qed
  have c5: "\<forall>m. find (\<lambda>m. match (mspec m) req) (mounts st) = Some m \<longrightarrow>
             ((\<exists>r. mount st req = Inr (Respond r)) \<longleftrightarrow>
                redirect m \<and> pathInfo req = path (mspec m) \<and> req_method req = ''GET'')"
    by (auto simp: mount_def mount_loop_find split: sum.splits)
  have c6: "\<forall>m. find (\<lambda>m. match (mspec m) req) (mounts st) = Some m
                \<and> path (mspec m) = Some ''/'' \<longrightarrow>
             (\<forall>r. mount st req \<noteq> Inr (Respond r))"
    using assms by (auto simp: mount_def mount_loop_find split: sum.splits)
  from c1 c2 c3 c4 c5 c6 show ?thesis by blast
qed


theorem C10_empty_pathInfo_is_root_witness:
  "\<not> path_test \<lparr> path = Some ''/wiki'', canonicalPath = Some ''/wiki/'', host = None \<rparr>
        \<lparr> scriptName = [], pathInfo = Some [], headers = [],
          req_method = ''GET'', queryString = None, lookupModule = None \<rparr>
   \<and> path_test \<lparr> path = Some [], canonicalPath = Some ''/'', host = None \<rparr>
        \<lparr> scriptName = [], pathInfo = Some [], headers = [],
          req_method = ''GET'', queryString = None, lookupModule = None \<rparr>
   \<and> (\<forall>r. mount \<lparr> mounts = [\<lparr> mspec = \<lparr> path = Some ''/'', canonicalPath = Some ''//'',
                                    host = None \<rparr>, redirect = True, app = 1 \<rparr>],
                   mountInfo = fmempty \<rparr>
        \<lparr> scriptName = [], pathInfo = Some [], headers = [],
          req_method = ''GET'', queryString = None, lookupModule = None \<rparr>
        \<noteq> Inr (Respond r))"
proof -
  let ?req = "\<lparr> scriptName = [], pathInfo = Some [], headers = [],
          req_method = ''GET'', queryString = None, lookupModule = None \<rparr>"
  let ?m = "\<lparr> mspec = \<lparr> path = Some ''/'', canonicalPath = Some ''//'',
                                    host = None \<rparr>, redirect = True, app = 1 \<rparr>"
  let ?st = "\<lparr> mounts = [?m], mountInfo = fmempty \<rparr>"
  have a: "pathInfo ?req = None \<or> pathInfo ?req = Some []" by simp
  have n: "normalize_spec (SpecString ''/wiki'')
             = Inr \<lparr> path = Some ''/wiki'', canonicalPath = Some ''/wiki/'', host = None \<rparr>"
    by (simp add: normalize_spec_def js_defs)
  have f: "find (\<lambda>m. match (mspec m) ?req) (mounts ?st) = Some ?m"
    by (simp add: match_defs js_defs)
  have ps: "path \<lparr> path = Some ''/wiki'', canonicalPath = Some ''/wiki/'', host = None \<rparr>
              = Some ''/wiki''"
    and ln: "1 < length ''/wiki''"
    and cs: "canonicalPath \<lparr> path = Some [], canonicalPath = Some ''/'', host = None \<rparr>
              = Some ''/''"
    and pm: "path (mspec ?m) = Some ''/''"
    by simp_all
  have w: "\<not> path_test \<lparr> path = Some ''/wiki'', canonicalPath = Some ''/wiki/'', host = None \<rparr> ?req"
    using C10_empty_pathInfo_is_root [OF a,
        of "\<lparr> path = Some ''/wiki'', canonicalPath = Some ''/wiki/'', host = None \<rparr>" ?st] n ps ln
    by blast
  have r: "path_test \<lparr> path = Some [], canonicalPath = Some ''/'', host = None \<rparr> ?req"
    using C10_empty_pathInfo_is_root [OF a,
        of "\<lparr> path = Some [], canonicalPath = Some ''/'', host = None \<rparr>" ?st] cs
    by blast
  have d: "\<forall>r. mount ?st ?req \<noteq> Inr (Respond r)"
    using C10_empty_pathInfo_is_root [OF a, of "mspec ?m" ?st] f pm
    by blast
  from w r d show ?thesis by blast
qed

section \<open>Registration errors\<close>

text \<open>
  Claim C5 as stated does not hold: \<open>app.mount\<close> accepts the empty object and the empty
  string, which supply neither a path nor a host, and registers a mount that matches
  every request.
\<close>

theorem C5_counterexample:
  "fst (app_mount (\<lambda>i. None) 0 (SpecObject None None) (App 1) False
          \<lparr> mounts = [], mountInfo = fmempty \<rparr>) = Inr ()
   \<and> mounts (snd (app_mount (\<lambda>i. None) 0 (SpecObject None None) (App 1) False
          \<lparr> mounts = [], mountInfo = fmempty \<rparr>))
       = [\<lparr> mspec = \<lparr> path = None, canonicalPath = None, host = None \<rparr>,
            redirect = True, app = 1 \<rparr>]
   \<and> fst (app_mount (\<lambda>i. None) 0 (SpecString []) (App 1) False
          \<lparr> mounts = [], mountInfo = fmempty \<rparr>) = Inr ()
   \<and> mounts (snd (app_mount (\<lambda>i. None) 0 (SpecString []) (App 1) False
          \<lparr> mounts = [], mountInfo = fmempty \<rparr>))
       = [\<lparr> mspec = \<lparr> path = Some [], canonicalPath = None, host = None \<rparr>,
            redirect = True, app = 1 \<rparr>]"
  by (simp add: app_mount_def normalize_spec_def resolveApp_def truthy_def array_sort_def)

text \<open>
  Claim C5, amended. \<open>app.mount\<close> throws the "Missing spec" error exactly when the
  \<open>spec\<close> argument is a falsy value that is not a string; a string (the empty one too)
  and an object (with or without \<open>path\<close> and \<open>host\<close>) are accepted. Whenever \<open>app.mount\<close>
  throws, the registry and the reverse links are as they were before the call.
\<close>

theorem C5_missing_spec_error:
  "(fst (app_mount require this a tgt noRedirect st) = Inl MissingSpec \<longleftrightarrow> a = SpecFalsy)
   \<and> (\<forall>e. fst (app_mount require this a tgt noRedirect st) = Inl e \<longrightarrow>
          snd (app_mount require this a tgt noRedirect st) = st)"
proof -
  have n: "normalize_spec a = Inl MissingSpec \<longleftrightarrow> a = SpecFalsy"
    by (cases a) (simp_all add: normalize_spec_def)
  have n': "\<And>e. normalize_spec a = Inl e \<Longrightarrow> e = MissingSpec"
    by (cases a) (simp_all add: normalize_spec_def)
  have r: "resolveApp require tgt \<noteq> Inl MissingSpec"
    by (simp add: resolveApp_def split: target.splits option.splits)
  have c1: "fst (app_mount require this a tgt noRedirect st) = Inl MissingSpec \<longleftrightarrow> a = SpecFalsy"
  proof (cases "normalize_spec a")
    case (Inl e)
    with n n' show ?thesis by (auto simp: app_mount_def)
  next
    case (Inr sp)
    with n r show ?thesis
      by (auto simp: app_mount_def Let_def split: sum.splits)
  qed
  have c2: "\<forall>e. fst (app_mount require this a tgt noRedirect st) = Inl e \<longrightarrow>
          snd (app_mount require this a tgt noRedirect st) = st"
    by (auto simp: app_mount_def Let_def split: sum.splits)
  from c1 c2 show ?thesis by blast
qed

theorem C5_missing_spec_error_witness:
  "fst (app_mount (\<lambda>i. None) 0 SpecFalsy (App 1) False
          \<lparr> mounts = [], mountInfo = fmempty \<rparr>) = Inl MissingSpec
   \<and> snd (app_mount (\<lambda>i. None) 0 SpecFalsy (App 1) False
          \<lparr> mounts = [], mountInfo = fmempty \<rparr>) = \<lparr> mounts = [], mountInfo = fmempty \<rparr>"
  using C5_missing_spec_error [of "\<lambda>i. None" 0 SpecFalsy "App 1" False
          "\<lparr> mounts = [], mountInfo = fmempty \<rparr>"]
  by simp

section \<open>Reverse resolution\<close>


lemma lookup_loop_stop:
  "first_unseen ls seen = None \<Longrightarrow> lookup_loop h (Some ls) seen acc = acc"
  by (subst lookup_loop.simps) simp

lemma lookup_loop_step:
  "first_unseen ls seen = Some (p, l) \<Longrightarrow>
     lookup_loop h (Some ls) seen acc =
       lookup_loop h (fmlookup h p) (seen @ [p]) (or_else (link_path l) [] @ acc)"
  by (subst lookup_loop.simps) simp








text \<open>
  Claim C8. \<open>lookup_loop\<close> is a total function: its termination is proved for every
  reverse-link structure, cyclic ones included, since every round adds a new application
  to \<open>seen\<close>. For every handler \<open>lookup\<close> returns a string and raises nothing; for a
  handler without links the string is empty; and for two applications whose only links
  name each other as parent, the walk from the first follows its link once and stops.
\<close>

theorem C8_lookup_total:
  "(\<exists>s. lookup require h (App a) = Inr s)
   \<and> (links h a = [] \<longrightarrow> lookup require h (App a) = Inr [])
   \<and> (\<forall>lA lB b. a \<noteq> b \<and> fmlookup h a = Some [lA] \<and> parent lA = Some b
          \<and> fmlookup h b = Some [lB] \<and> parent lB = Some a
        \<longrightarrow> lookup require h (App a) = Inr (or_else (link_path lA) []))"
proof -
  have c1: "\<exists>s. lookup require h (App a) = Inr s"
    by (simp add: lookup_def resolveApp_def split: option.splits)
  have c2: "links h a = [] \<longrightarrow> lookup require h (App a) = Inr []"
    by (auto simp: lookup_def resolveApp_def links_def lookup_loop_stop split: option.splits)
  have c3: "\<forall>lA lB b. a \<noteq> b \<and> fmlookup h a = Some [lA] \<and> parent lA = Some b
          \<and> fmlookup h b = Some [lB] \<and> parent lB = Some a
        \<longrightarrow> lookup require h (App a) = Inr (or_else (link_path lA) [])"
  proof (intro allI impI)
    fix lA lB b
    assume c: "a \<noteq> b \<and> fmlookup h a = Some [lA] \<and> parent lA = Some b
          \<and> fmlookup h b = Some [lB] \<and> parent lB = Some a"
    then have f1: "first_unseen [lA] [a] = Some (b, lA)"
      by auto
    from c have f2: "first_unseen [lB] ([a] @ [b]) = None"
      by simp
    have "lookup_loop h (Some [lA]) [a] []
            = lookup_loop h (fmlookup h b) ([a] @ [b]) (or_else (link_path lA) [] @ [])"
      by (rule lookup_loop_step [OF f1])
    also have "\<dots> = lookup_loop h (Some [lB]) ([a] @ [b]) (or_else (link_path lA) [] @ [])"
      using c by simp
    also have "\<dots> = or_else (link_path lA) [] @ []"
      by (rule lookup_loop_stop [OF f2])
    finally show "lookup require h (App a) = Inr (or_else (link_path lA) [])"
      using c by (simp add: lookup_def resolveApp_def)
  qed
  from c1 c2 c3 show ?thesis by blast
qed

theorem C8_lookup_total_witness:
  "lookup (\<lambda>i. None)
     (fmupd 1 [\<lparr> parent = Some 2, link_path = Some ''/a'', link_host = None \<rparr>]
       (fmupd 2 [\<lparr> parent = Some 1, link_path = Some ''/b'', link_host = None \<rparr>] fmempty))
     (App 1) = Inr ''/a''
   \<and> lookup (\<lambda>i. None) fmempty (App 1) = Inr []"
proof -
  let ?lA = "\<lparr> parent = Some 2, link_path = Some ''/a'', link_host = None \<rparr>"
  let ?lB = "\<lparr> parent = Some (1::nat), link_path = Some ''/b'', link_host = None \<rparr>"
  let ?h = "fmupd (1::nat) [?lA] (fmupd 2 [?lB] fmempty)"
  have c: "(1::nat) \<noteq> 2 \<and> fmlookup ?h 1 = Some [?lA] \<and> parent ?lA = Some 2
          \<and> fmlookup ?h 2 = Some [?lB] \<and> parent ?lB = Some 1"
    by simp
  have p: "or_else (link_path ?lA) [] = ''/a''"
    by (simp add: or_else_def)
  have e: "links fmempty 1 = []"
    by (simp add: links_def)
  have w1: "lookup (\<lambda>i. None) ?h (App 1) = Inr ''/a''"
    using C8_lookup_total [of "\<lambda>i. None" ?h 1] c p by metis
  have w2: "lookup (\<lambda>i. None) fmempty (App 1) = Inr []"
    using C8_lookup_total [of "\<lambda>i. None" fmempty 1] e by blast
  from w1 w2 show ?thesis by blast
qed

section \<open>The resolver of module identifiers\<close>

lemma adjust_lookupModule:
  "adjust sp req = Inr req' \<Longrightarrow> lookupModule req' = lookupModule req"
  by (auto simp: adjust_def Let_def split: if_splits option.splits)

lemma stick_mount_loop_lookupModule:
  "stick_mount_loop ms req = Inr out \<Longrightarrow> outcome_request out = Some r
     \<Longrightarrow> lookupModule r = lookupModule req"
proof (induction ms)
  case Nil
  then show ?case by (auto simp: outcome_request_def)
next
  case (Cons m ms)
  show ?case
  proof (cases "match (sspec m) req")
    case False
    with Cons show ?thesis by simp
  next
    case True
    with Cons.prems show ?thesis
      by (auto simp: outcome_request_def Let_def adjust_lookupModule
          split: if_splits sum.splits)
  qed
qed

lemma encodeURI_unescaped:
  "\<forall>c \<in> set s. uri_unescaped c \<Longrightarrow> encodeURI s = s"
  by (induction s) (simp_all add: encodeURI_def)

lemma stick_app_mount_reverse_lookup:
  "fmlookup (reverse (snd (stick_app_mount require a tgt st))) i =
     (if tgt = ModuleId i
      then (case normalize_spec a of Inl e \<Rightarrow> fmlookup (reverse st) i | Inr sp \<Rightarrow> Some sp)
      else fmlookup (reverse st) i)"
  by (cases tgt) (auto simp: stick_app_mount_def Let_def split: sum.splits option.splits)

lemma stick_mount_all_reverse:
  "fmlookup (reverse (stick_mount_all require cs st)) i =
     (case latest_registration cs i of
        None \<Rightarrow> fmlookup (reverse st) i
      | Some sp \<Rightarrow> Some sp)"
proof (induction cs arbitrary: st)
  case Nil
  then show ?case by simp
next
  case (Cons c cs)
  obtain a tgt where c: "c = (a, tgt)" by (cases c)
  show ?case
    unfolding c
    by (simp add: Cons.IH stick_app_mount_reverse_lookup split: option.splits sum.splits)
qed

lemma uri_unescaped_ascii: "uri_unescaped c \<Longrightarrow> (of_char c :: nat) < 128"
  by (auto simp: uri_unescaped_def)

lemma encodeURI_units_string:
  "encodeURI_units (map of_char s) = Inr (encodeURI s)"
proof (induction s)
  case Nil
  then show ?case by (simp add: encodeURI_def)
next
  case (Cons c s)
  have lt: "(of_char c :: nat) < 256"
    by (metis of_char_mod_256 mod_less_divisor zero_less_numeral)
  have e: "encodeURI (c # s) =
      (if uri_unescaped c then [c]
       else if (of_char c :: nat) < 128 then percent (of_char c)
       else percent (192 + of_char c div 64) @ percent (128 + of_char c mod 64)) @ encodeURI s"
    by (simp add: encodeURI_def Let_def)
  show ?case
  proof (cases "uri_unescaped c")
    case True
    with Cons uri_unescaped_ascii [OF True] e show ?thesis by simp
  next
    case False
    from lt have b: "(of_char c :: nat) < 2048" "(of_char c :: nat) < 65536"
        "\<not> 56320 \<le> (of_char c :: nat)" "\<not> 55296 \<le> (of_char c :: nat)"
      by linarith+
    from False Cons e b show ?thesis
      by (simp add: utf8_def)
  qed
qed

text \<open>
  Claim C9 as stated does not hold: the resolver returns \<open>encodeURI\<close> of the concatenation,
  which differs from the concatenation for the mount path \<open>"/my app"\<close>.
\<close>

theorem C9_counterexample:
  "(case stick_mount
           (snd (stick_app_mount (\<lambda>i. Some 1) (SpecString ''/my app'') (ModuleId ''wiki'')
                   \<lparr> smounts = [], reverse = fmempty \<rparr>))
           \<lparr> scriptName = ''/app'', pathInfo = Some ''/other'', headers = [],
             req_method = ''GET'', queryString = None, lookupModule = None \<rparr> of
      Inr (Next r) \<Rightarrow> (case lookupModule r of Some f \<Rightarrow> f ''wiki'' | None \<Rightarrow> [])
    | _ \<Rightarrow> []) = ''/app/my%20app/''
   \<and> canonicalPath (sspec (hd (smounts
           (snd (stick_app_mount (\<lambda>i. Some 1) (SpecString ''/my app'') (ModuleId ''wiki'')
                   \<lparr> smounts = [], reverse = fmempty \<rparr>))))) = Some ''/my app/''"
  by (simp add: stick_mount_def stick_app_mount_def normalize_spec_def js_defs match_defs
      lookupModule_fn_def encodeURI_def uri_unescaped_def percent_def hex_digit_def Let_def)

text \<open>
  Claim C9, amended. Whenever the middleware of lib/stick/middleware/mount.js calls an
  application or the wrapped chain, the request carries a resolver \<open>f\<close>. After any
  sequence of \<open>app.mount\<close> calls, \<open>f\<close> decides an identifier by the latest call that
  named it as target and got past the check of its \<open>spec\<close> argument, whether or not the
  target was then resolved: if that call's spec has a canonical path, \<open>f\<close> returns
  \<open>encodeURI\<close> of the \<open>scriptName\<close> at entry followed by that canonical path. For an
  identifier never named, or whose latest call had a spec without path, \<open>f\<close> returns what
  the resolver found in the request at entry returns, when there is one, and the string
  \<open>"/_" + id + "_(unresolved_module)"\<close> otherwise. On the strings of this model
  \<open>encodeURI\<close> is the built-in function on their code units, and it returns its argument
  when that holds only characters of the unescaped set.
\<close>

theorem C9_lookupModule_resolver:
  assumes "stick_mount (stick_mount_all require cs \<lparr> smounts = [], reverse = fmempty \<rparr>) req
             = Inr out"
    and "outcome_request out = Some r"
  shows "\<exists>f. lookupModule r = Some f
       \<and> (\<forall>i. f i =
             (let fallback = (case lookupModule req of
                                Some g \<Rightarrow> g i
                              | None \<Rightarrow> ''/_'' @ i @ ''_(unresolved_module)'')
              in case latest_registration cs i of
                   None \<Rightarrow> fallback
                 | Some sp \<Rightarrow>
                     (case canonicalPath sp of
                        None \<Rightarrow> fallback
                      | Some cp \<Rightarrow>
                          if cp = [] then fallback
                          else encodeURI (scriptName req @ cp))))
       \<and> (\<forall>s. encodeURI_units (map of_char s) = Inr (encodeURI s))
       \<and> (\<forall>s. (\<forall>c \<in> set s. uri_unescaped c) \<longrightarrow> encodeURI s = s)"
proof -
  let ?st = "stick_mount_all require cs \<lparr> smounts = [], reverse = fmempty \<rparr>"
  let ?f = "lookupModule_fn (reverse ?st) (scriptName req) (lookupModule req)"
  have f: "lookupModule r = Some ?f"
    using assms stick_mount_loop_lookupModule [of "smounts ?st" _ out r]
    by (simp add: stick_mount_def Let_def)
  have tab: "\<And>i. fmlookup (reverse ?st) i = latest_registration cs i"
    by (simp add: stick_mount_all_reverse split: option.splits)
  have c1: "\<forall>i. ?f i =
             (let fallback = (case lookupModule req of
                                Some g \<Rightarrow> g i
                              | None \<Rightarrow> ''/_'' @ i @ ''_(unresolved_module)'')
              in case latest_registration cs i of
                   None \<Rightarrow> fallback
                 | Some sp \<Rightarrow>
                     (case canonicalPath sp of
                        None \<Rightarrow> fallback
                      | Some cp \<Rightarrow>
                          if cp = [] then fallback
                          else encodeURI (scriptName req @ cp)))"
    unfolding lookupModule_fn_def tab
    by (simp add: truthy_def js_string_def Let_def split: option.splits)
  have c2: "\<forall>s. encodeURI_units (map of_char s) = Inr (encodeURI s)"
    by (simp add: encodeURI_units_string)
  have c3: "\<forall>s. (\<forall>c \<in> set s. uri_unescaped c) \<longrightarrow> encodeURI s = s"
    by (simp add: encodeURI_unescaped)
  from f c1 c2 c3 show ?thesis by blast
qed

theorem C9_lookupModule_resolver_witness:
  "\<exists>f. lookupModule
          (\<lparr> scriptName = ''/app'', pathInfo = Some ''/other'', headers = [],
             req_method = ''GET'', queryString = None, lookupModule = None \<rparr>
           \<lparr> lookupModule := Some (lookupModule_fn
               (reverse (stick_mount_all (\<lambda>i. if i = ''bad'' then None else Some 1)
                  [(SpecString ''/a'', ModuleId ''wiki''),
                   (SpecString ''/blog'', ModuleId ''blog''),
                   (SpecString ''/bad'', ModuleId ''bad''),
                   (SpecObject None (Some ''h.org''), ModuleId ''wiki'')]
                  \<lparr> smounts = [], reverse = fmempty \<rparr>)) ''/app'' None) \<rparr>) = Some f
      \<and> f ''blog'' = ''/app/blog/''
      \<and> f ''bad'' = ''/app/bad/''
      \<and> f ''wiki'' = ''/_wiki_(unresolved_module)''
      \<and> f ''shop'' = ''/_shop_(unresolved_module)''"
proof -
  let ?rq = "\<lambda>i. if i = ''bad'' then None else Some (1::nat)"
  let ?cs = "[(SpecString ''/a'', ModuleId ''wiki''),
                   (SpecString ''/blog'', ModuleId ''blog''),
                   (SpecString ''/bad'', ModuleId ''bad''),
                   (SpecObject None (Some ''h.org''), ModuleId ''wiki'')]"
  let ?st = "stick_mount_all ?rq ?cs \<lparr> smounts = [], reverse = fmempty \<rparr>"
  let ?req = "\<lparr> scriptName = ''/app'', pathInfo = Some ''/other'', headers = [],
             req_method = ''GET'', queryString = None, lookupModule = None \<rparr>"
  let ?r = "?req\<lparr> lookupModule := Some (lookupModule_fn (reverse ?st) ''/app'' None) \<rparr>"
  have sm: "smounts ?st =
      [\<lparr> sspec = \<lparr> path = Some ''/a'', canonicalPath = Some ''/a/'', host = None \<rparr>, target = 1 \<rparr>,
       \<lparr> sspec = \<lparr> path = Some ''/blog'', canonicalPath = Some ''/blog/'', host = None \<rparr>,
         target = 1 \<rparr>,
       \<lparr> sspec = \<lparr> path = None, canonicalPath = None, host = Some ''h.org'' \<rparr>, target = 1 \<rparr>]"
    by (simp add: stick_app_mount_def normalize_spec_def js_defs Let_def)
  have a: "stick_mount ?st ?req = stick_mount_loop (smounts ?st) ?r"
    by (simp add: stick_mount_def Let_def del: stick_mount_all.simps)
  have b: "\<And>ms. ms =
      [\<lparr> sspec = \<lparr> path = Some ''/a'', canonicalPath = Some ''/a/'', host = None \<rparr>, target = 1 \<rparr>,
       \<lparr> sspec = \<lparr> path = Some ''/blog'', canonicalPath = Some ''/blog/'', host = None \<rparr>,
         target = 1 \<rparr>,
       \<lparr> sspec = \<lparr> path = None, canonicalPath = None, host = Some ''h.org'' \<rparr>, target = 1 \<rparr>]
      \<Longrightarrow> stick_mount_loop ms ?r = Inr (Next ?r)"
    by (simp add: match_defs js_defs del: stick_mount_all.simps)
  have h1: "stick_mount ?st ?req = Inr (Next ?r)"
    unfolding a by (rule b [OF sm])
  have h2: "outcome_request (Next ?r) = Some ?r"
    by (simp add: outcome_request_def)
  have l1: "latest_registration ?cs ''blog''
              = Some \<lparr> path = Some ''/blog'', canonicalPath = Some ''/blog/'', host = None \<rparr>"
    and l2: "latest_registration ?cs ''bad''
              = Some \<lparr> path = Some ''/bad'', canonicalPath = Some ''/bad/'', host = None \<rparr>"
    and l3: "latest_registration ?cs ''wiki''
              = Some \<lparr> path = None, canonicalPath = None, host = Some ''h.org'' \<rparr>"
    and l4: "latest_registration ?cs ''shop'' = None"
    by (simp_all add: normalize_spec_def js_defs)
  from C9_lookupModule_resolver [OF h1 h2] obtain f where
    f: "lookupModule ?r = Some f"
    and v: "\<forall>i. f i =
             (let fallback = (case lookupModule ?req of
                                Some g \<Rightarrow> g i
                              | None \<Rightarrow> ''/_'' @ i @ ''_(unresolved_module)'')
              in case latest_registration ?cs i of
                   None \<Rightarrow> fallback
                 | Some sp \<Rightarrow>
                     (case canonicalPath sp of
                        None \<Rightarrow> fallback
                      | Some cp \<Rightarrow>
                          if cp = [] then fallback
                          else encodeURI (scriptName ?req @ cp)))"
    by blast
  have e1: "encodeURI ''/app/blog/'' = ''/app/blog/''"
    and e2: "encodeURI ''/app/bad/'' = ''/app/bad/''"
    by (simp_all add: encodeURI_unescaped uri_unescaped_def)
  have "f ''blog'' = ''/app/blog/''"
    using v [rule_format, of "''blog''"] l1 e1 by simp
  moreover have "f ''bad'' = ''/app/bad/''"
    using v [rule_format, of "''bad''"] l2 e2 by simp
  moreover have "f ''wiki'' = ''/_wiki_(unresolved_module)''"
    using v [rule_format, of "''wiki''"] l3 by simp
  moreover have "f ''shop'' = ''/_shop_(unresolved_module)''"
    using v [rule_format, of "''shop''"] l4 by simp
  ultimately show ?thesis
    using f by blast
qed

end
